theory Spec2Isabelle
  imports Complex_Main
begin

section \<open>Python strings\<close>

text \<open>
  A Python \<open>str\<close> is a sequence of Unicode code points, so a string is a list of code
  points here. ASCII literals of the source are written as HOL string literals and
  converted with \<open>str\<close>.
\<close>

type_synonym codepoint = nat
type_synonym pystr = "codepoint list"

definition str :: "string \<Rightarrow> pystr" where
  "str s = map of_char s"

text \<open>
  The characters that \<open>str.split()\<close> (no argument) and \<open>str.strip()\<close> treat as
  whitespace: those for which \<open>str.isspace()\<close> holds.
\<close>

definition whitespace_codepoints :: "codepoint list" where
  "whitespace_codepoints =
     [0x09, 0x0A, 0x0B, 0x0C, 0x0D, 0x1C, 0x1D, 0x1E, 0x1F, 0x20, 0x85, 0xA0,
      0x1680, 0x2000, 0x2001, 0x2002, 0x2003, 0x2004, 0x2005, 0x2006, 0x2007,
      0x2008, 0x2009, 0x200A, 0x2028, 0x2029, 0x202F, 0x205F, 0x3000]"

definition is_space :: "codepoint \<Rightarrow> bool" where
  "is_space c = (c \<in> set whitespace_codepoints)"

text \<open>
  \<open>text.split()\<close>: runs of whitespace separate the words, and no empty word is
  produced. \<open>split_from cur s\<close> scans \<open>s\<close> with the word \<open>cur\<close> under construction.
\<close>

fun split_from :: "pystr \<Rightarrow> pystr \<Rightarrow> pystr list" where
  "split_from cur [] = (if cur = [] then [] else [cur])"
| "split_from cur (c # cs) =
     (if is_space c
      then (if cur = [] then split_from [] cs else cur # split_from [] cs)
      else split_from (cur @ [c]) cs)"

definition split :: "pystr \<Rightarrow> pystr list" where
  "split s = split_from [] s"

text \<open>\<open>sep.join(xs)\<close>.\<close>

fun join :: "pystr \<Rightarrow> pystr list \<Rightarrow> pystr" where
  "join sep [] = []"
| "join sep [x] = x"
| "join sep (x # y # ys) = x @ sep @ join sep (y # ys)"

text \<open>\<open>s.strip()\<close>: leading and trailing whitespace removed.\<close>

definition strip :: "pystr \<Rightarrow> pystr" where
  "strip s = rev (dropWhile is_space (rev (dropWhile is_space s)))"

text \<open>\<open>s.lower()\<close> on the ASCII model identifiers of the source.\<close>

definition lower_char :: "char \<Rightarrow> char" where
  "lower_char c =
     (let n = (of_char c :: nat) in if 65 \<le> n \<and> n \<le> 90 then char_of (n + 32) else c)"

definition lower :: "string \<Rightarrow> string" where
  "lower s = map lower_char s"

text \<open>\<open>sub in s\<close> on strings: \<open>sub\<close> occurs as a contiguous substring of \<open>s\<close>.\<close>

fun is_prefix :: "'a list \<Rightarrow> 'a list \<Rightarrow> bool" where
  "is_prefix [] ys = True"
| "is_prefix (x # xs) [] = False"
| "is_prefix (x # xs) (y # ys) = (x = y \<and> is_prefix xs ys)"

fun contains :: "'a list \<Rightarrow> 'a list \<Rightarrow> bool" where
  "contains sub [] = (sub = [])"
| "contains sub (y # ys) = (is_prefix sub (y # ys) \<or> contains sub ys)"

section \<open>Exceptions\<close>

datatype exn =
    ValueError string
  | IndexError
  | KeyError string
  | ExternalError string

section \<open>Lists: slices and stepped ranges\<close>

text \<open>\<open>xs[i:j]\<close> for non-negative bounds; a slice never raises, it clamps.\<close>

definition slice :: "'a list \<Rightarrow> nat \<Rightarrow> nat \<Rightarrow> 'a list" where
  "slice xs i j = take (j - i) (drop i xs)"

text \<open>
  \<open>range(start, stop, step)\<close> with a positive step; \<open>range\<close> raises \<open>ValueError\<close> when
  the step is zero.
\<close>

function range_from :: "nat \<Rightarrow> nat \<Rightarrow> nat \<Rightarrow> nat list" where
  "range_from i stop step =
     (if step = 0 \<or> stop \<le> i then [] else i # range_from (i + step) stop step)"
  by pat_completeness auto
termination
  by (relation "measure (\<lambda>(i, stop, step). stop - i)") auto

declare range_from.simps [simp del]

definition py_range :: "nat \<Rightarrow> nat \<Rightarrow> nat \<Rightarrow> exn + nat list" where
  "py_range start stop step =
     (if step = 0 then Inl (ValueError ''range() arg 3 must not be zero'')
      else Inr (range_from start stop step))"

section \<open>Chunking (lines 38 to 42 of \<open>safe_generate_summary\<close>)\<close>

text \<open>
  \<^verbatim>\<open>
  words = text.split()
  chunks = []
  for i in range(0, len(words), max_input_words):
      chunk = " ".join(words[i:i + max_input_words])
      chunks.append(chunk)
  \<close>
\<close>

definition chunk_words :: "nat \<Rightarrow> pystr list \<Rightarrow> exn + pystr list" where
  "chunk_words max_input_words words =
     (case py_range 0 (length words) max_input_words of
        Inl e \<Rightarrow> Inl e
      | Inr idxs \<Rightarrow>
          Inr (map (\<lambda>i. join (str '' '') (slice words i (i + max_input_words))) idxs))"

definition chunk_text :: "nat \<Rightarrow> pystr \<Rightarrow> exn + pystr list" where
  "chunk_text max_input_words text = chunk_words max_input_words (split text)"

section \<open>Floating point: \<open>int(length * 0.8)\<close>\<close>

text \<open>
  \<open>length * 0.8\<close> converts the integer to a double, multiplies by the double nearest to
  0.8, which is \<open>3602879701896397 / 2^52\<close>, and rounds the exact product to 53
  significant bits, ties to even; \<open>int\<close> then truncates towards zero. The arithmetic is
  written out on the integers; exponent overflow (integers of more than 1000 bits) is
  outside what the program computes with and is not modelled.
\<close>

fun bit_len :: "nat \<Rightarrow> nat" where
  "bit_len n = (if n = 0 then 0 else Suc (bit_len (n div 2)))"

declare bit_len.simps [simp del]

definition round_half_even :: "nat \<Rightarrow> nat \<Rightarrow> nat" where
  "round_half_even p e =
     (let q = p div 2 ^ e; r = p mod 2 ^ e
      in if 2 ^ e < 2 * r \<or> (2 * r = 2 ^ e \<and> odd q) then q + 1 else q)"

definition round53 :: "nat \<Rightarrow> nat" where
  "round53 p = (let e = bit_len p - 53 in round_half_even p e * 2 ^ e)"

definition double_0_8 :: nat where
  "double_0_8 = 3602879701896397"

definition int_mul_0_8 :: "int \<Rightarrow> int" where
  "int_mul_0_8 n = sgn n * int (round53 (round53 (nat \<bar>n\<bar>) * double_0_8) div 2 ^ 52)"

section \<open>The summarizer selector\<close>

text \<open>
  \<open>pipeline("summarization", model=..., use_fast=False)\<close> is the external model
  runtime. The pipeline object is represented by what the program reads from it:
  \<open>summarizer.model.name_or_path\<close> is the identifier the model was loaded from.
\<close>

record summarizer =
  task :: string
  name_or_path :: string
  use_fast :: bool

definition pipeline :: "string \<Rightarrow> string \<Rightarrow> bool \<Rightarrow> summarizer" where
  "pipeline t m f = \<lparr>task = t, name_or_path = m, use_fast = f\<rparr>"

definition get_summarizer :: "int \<Rightarrow> exn + summarizer" where
  "get_summarizer len =
     (if len = 60 then Inr (pipeline ''summarization'' ''google/flan-t5-base'' False)
      else if len = 150 then Inr (pipeline ''summarization'' ''google/pegasus-cnn_dailymail'' False)
      else if len = 500 then Inr (pipeline ''summarization'' ''pszemraj/led-large-book-summary'' False)
      else Inl (ValueError ''Invalid summary length.''))"

section \<open>The chunked summarizer\<close>

text \<open>
  One invocation \<open>summarizer(chunk, max_length=..., min_length=..., do_sample=...)\<close>
  of the external capability, and the capability itself: it raises or returns a list of
  dictionaries, of which the program reads \<open>[0]["summary_text"]\<close>.
\<close>

record call =
  chunk :: pystr
  max_length :: int
  min_length :: int
  do_sample :: bool

type_synonym capability = "summarizer \<Rightarrow> call \<Rightarrow> exn + (string \<rightharpoonup> pystr) list"

definition max_input_words :: "summarizer \<Rightarrow> nat" where
  "max_input_words s =
     (if contains ''long-t5'' (lower (name_or_path s)) then 8000 else 700)"

text \<open>
  The request of line 46 to 51 for one chunk, and the expression
  \<open>summarizer(chunk, ...)[0]["summary_text"]\<close>: indexing an empty list raises
  \<open>IndexError\<close>, a missing key raises \<open>KeyError\<close>.
\<close>

definition request_for :: "int \<Rightarrow> pystr \<Rightarrow> call" where
  "request_for len c =
     \<lparr>chunk = c, max_length = len, min_length = max 20 (int_mul_0_8 len), do_sample = False\<rparr>"

definition invoke :: "capability \<Rightarrow> summarizer \<Rightarrow> int \<Rightarrow> pystr \<Rightarrow> exn + pystr" where
  "invoke cap s len c =
     (case cap s (request_for len c) of
        Inl e \<Rightarrow> Inl e
      | Inr out \<Rightarrow>
          (case out of
             [] \<Rightarrow> Inl IndexError
           | d # _ \<Rightarrow>
               (case d ''summary_text'' of
                  None \<Rightarrow> Inl (KeyError ''summary_text'')
                | Some summary \<Rightarrow> Inr summary)))"

text \<open>
  The second loop of \<open>safe_generate_summary\<close>. The list of requests made so far is
  threaded through, so that what the program asks of the capability is part of the
  result; an exception ends the loop.
\<close>

fun summarize_chunks ::
  "capability \<Rightarrow> summarizer \<Rightarrow> int \<Rightarrow> pystr list \<Rightarrow> pystr list \<Rightarrow> call list
     \<Rightarrow> (exn + pystr list) \<times> call list" where
  "summarize_chunks cap s len [] summaries calls = (Inr summaries, calls)"
| "summarize_chunks cap s len (c # rest) summaries calls =
     (case invoke cap s len c of
        Inl e \<Rightarrow> (Inl e, calls @ [request_for len c])
      | Inr summary \<Rightarrow>
          summarize_chunks cap s len rest (summaries @ [strip summary])
            (calls @ [request_for len c]))"

definition safe_generate_summary ::
  "capability \<Rightarrow> pystr \<Rightarrow> int \<Rightarrow> (exn + pystr) \<times> call list" where
  "safe_generate_summary cap text len =
     (case get_summarizer len of
        Inl e \<Rightarrow> (Inl e, [])
      | Inr summarizer \<Rightarrow>
          (case chunk_text (max_input_words summarizer) text of
             Inl e \<Rightarrow> (Inl e, [])
           | Inr chunks \<Rightarrow>
               (case summarize_chunks cap summarizer len chunks [] [] of
                  (Inl e, calls) \<Rightarrow> (Inl e, calls)
                | (Inr summaries, calls) \<Rightarrow> (Inr (join (str '' '') summaries), calls))))"

section \<open>Text acquisition\<close>

text \<open>
  The parsed document as BeautifulSoup presents it: a tree of tags and text nodes.
  \<open>find_all\<close> returns the descendants with the given tag name in document order,
  \<open>get_text\<close> the concatenation of the text below a node.
\<close>

datatype html = Text pystr | Element string "html list"

fun get_text :: "html \<Rightarrow> pystr" where
  "get_text (Text s) = s"
| "get_text (Element n kids) = concat (map get_text kids)"

fun find_all :: "string \<Rightarrow> html \<Rightarrow> html list" where
  "find_all tag (Text s) = []"
| "find_all tag (Element n kids) =
     concat (map (\<lambda>k. (case k of Text _ \<Rightarrow> [] | Element m _ \<Rightarrow> if m = tag then [k] else [])
                        @ find_all tag k) kids)"

text \<open>
  The world outside the program: \<open>fetch\<close> is \<open>requests.get\<close> followed by the parse of
  the response, \<open>read_pdf\<close> is \<open>PyPDF2.PdfReader\<close> with \<open>extract_text\<close> on every page,
  \<open>summarize\<close> the summarization capability and \<open>tts\<close> the speech synthesis that
  \<open>generate_audio\<close> wraps (it returns the path of the audio file).
\<close>

type_synonym bytes = "nat list"

record env =
  fetch :: "pystr \<Rightarrow> exn + html"
  read_pdf :: "bytes \<Rightarrow> exn + pystr list"
  summarize :: capability
  tts :: "pystr \<Rightarrow> exn + string"

definition extract_text_from_url :: "env \<Rightarrow> pystr \<Rightarrow> exn + pystr" where
  "extract_text_from_url w url =
     (case fetch w url of
        Inl e \<Rightarrow> Inl e
      | Inr soup \<Rightarrow> Inr (join (str '' '') (map get_text (find_all ''p'' soup))))"

definition extract_text_from_pdf :: "env \<Rightarrow> bytes \<Rightarrow> exn + pystr" where
  "extract_text_from_pdf w file =
     (case read_pdf w file of
        Inl e \<Rightarrow> Inl e
      | Inr pages \<Rightarrow> Inr (join (str '' '') (filter (\<lambda>t. t \<noteq> []) pages)))"

definition generate_audio :: "env \<Rightarrow> pystr \<Rightarrow> exn + string" where
  "generate_audio w summary_text = tts w summary_text"

section \<open>The generate button handler\<close>

datatype input =
    TextInput pystr
  | UrlInput pystr
  | PdfUpload "bytes option"
  | DigestInput pystr

datatype outcome =
    Stopped string
  | Raised exn
  | Rendered pystr string

definition digest_preamble :: pystr where
  "digest_preamble =
     str ''Summarize the newspaper article reference list by grouping them by source and ordering by date:'' @ [0x0A]"

text \<open>
  The \<open>if\<close>/\<open>elif\<close> chain that selects the text: \<open>None\<close> is the final \<open>else\<close>
  (\<open>st.error\<close>, then \<open>st.stop\<close>).
\<close>

fun acquire_text :: "env \<Rightarrow> input \<Rightarrow> (exn + pystr) option" where
  "acquire_text w (TextInput user_text) =
     (if user_text \<noteq> [] then Some (Inr user_text) else None)"
| "acquire_text w (UrlInput url) =
     (if url \<noteq> [] then Some (extract_text_from_url w url) else None)"
| "acquire_text w (PdfUpload pdf_file) =
     (case pdf_file of Some f \<Rightarrow> Some (extract_text_from_pdf w f) | None \<Rightarrow> None)"
| "acquire_text w (DigestInput digest_input) =
     (if digest_input \<noteq> [] then Some (Inr (digest_preamble @ digest_input)) else None)"

definition on_generate :: "env \<Rightarrow> input \<Rightarrow> int \<Rightarrow> outcome \<times> call list" where
  "on_generate w inp summary_length =
     (case acquire_text w inp of
        None \<Rightarrow> (Stopped ''Please provide a valid input.'', [])
      | Some (Inl e) \<Rightarrow> (Raised e, [])
      | Some (Inr text) \<Rightarrow>
          (case safe_generate_summary (summarize w) text summary_length of
             (Inl e, calls) \<Rightarrow> (Raised e, calls)
           | (Inr summary, calls) \<Rightarrow>
               (case generate_audio w summary of
                  Inl e \<Rightarrow> (Raised e, calls)
                | Inr audio_path \<Rightarrow> (Rendered summary audio_path, calls))))"

section \<open>Auxiliary notions for the proofs\<close>

text \<open>A word as \<open>split\<close> produces it: not empty and free of whitespace.\<close>

definition word_ok :: "pystr \<Rightarrow> bool" where
  "word_ok w = (w \<noteq> [] \<and> (\<forall>c\<in>set w. \<not> is_space c))"

text \<open>The slices of the chunking loop from index \<open>i\<close> on, before they are joined.\<close>

definition groups_from :: "nat \<Rightarrow> nat \<Rightarrow> 'a list \<Rightarrow> 'a list list" where
  "groups_from i m ws = map (\<lambda>j. slice ws j (j + m)) (range_from i (length ws) m)"

text \<open>The number of whitespace-delimited words of a string.\<close>

definition word_count :: "pystr \<Rightarrow> nat" where
  "word_count s = length (split s)"

text \<open>A capability for concrete runs: it returns the chunk itself as its summary.\<close>

definition echo :: capability where
  "echo s r = Inr [[''summary_text'' \<mapsto> chunk r]]"

text \<open>A text of \<open>n\<close> words for concrete runs.\<close>

definition words_text :: "nat \<Rightarrow> pystr" where
  "words_text n = concat (replicate n (str ''word'' @ [32]))"

section \<open>Facts about splitting, joining and slicing\<close>

lemma is_space_32: "is_space 32"
  by (simp add: is_space_def whitespace_codepoints_def)

lemma str_space: "str '' '' = [32]"
  by (simp add: str_def)


lemma split_from_word_ok:
  "\<forall>c\<in>set cur. \<not> is_space c \<Longrightarrow> w \<in> set (split_from cur s) \<Longrightarrow> word_ok w"
proof (induction s arbitrary: cur)
  case Nil
  then show ?case by (simp add: word_ok_def split: if_splits)
next
  case (Cons c cs)
  show ?case
  proof (cases "is_space c")
    case True
    with Cons.prems(2) have "w = cur \<and> cur \<noteq> [] \<or> w \<in> set (split_from [] cs)"
      by (simp split: if_splits)
    then show ?thesis
    proof
      assume "w = cur \<and> cur \<noteq> []"
      with Cons.prems(1) show ?thesis by (simp add: word_ok_def)
    next
      assume "w \<in> set (split_from [] cs)"
      then show ?thesis using Cons.IH [of "[]"] by simp
    qed
  next
    case False
    with Cons.prems(2) have "w \<in> set (split_from (cur @ [c]) cs)" by simp
    moreover from False Cons.prems(1) have "\<forall>d\<in>set (cur @ [c]). \<not> is_space d" by simp
    ultimately show ?thesis using Cons.IH [of "cur @ [c]"] by blast
  qed
qed

lemma split_word_ok: "w \<in> set (split s) \<Longrightarrow> word_ok w"
  unfolding split_def using split_from_word_ok [of "[]" w s] by simp

lemma split_from_nonspace:
  "\<forall>c\<in>set w. \<not> is_space c \<Longrightarrow> split_from cur (w @ rest) = split_from (cur @ w) rest"
  by (induction w arbitrary: cur) auto

lemma split_from_word_then_space:
  assumes "word_ok w"
  shows "split_from [] (w @ 32 # rest) = w # split_from [] rest"
  using assms split_from_nonspace [of w "[]" "32 # rest"]
  by (simp add: word_ok_def is_space_32)

lemma split_from_word_end:
  assumes "word_ok w"
  shows "split_from [] w = [w]"
  using assms split_from_nonspace [of w "[]" "[]"]
  by (simp add: word_ok_def)

lemma split_join:
  "\<forall>w\<in>set ws. word_ok w \<Longrightarrow> split (join [32] ws) = ws"
  unfolding split_def
  by (induction "[32::nat]" ws rule: join.induct)
     (simp_all add: split_from_word_then_space split_from_word_end)

lemma join_append:
  "xs \<noteq> [] \<Longrightarrow> ys \<noteq> [] \<Longrightarrow> join sep (xs @ ys) = join sep xs @ sep @ join sep ys"
  by (induction sep xs rule: join.induct) (auto simp: neq_Nil_conv)

lemma join_concat:
  "\<forall>g\<in>set gs. g \<noteq> [] \<Longrightarrow> join sep (map (join sep) gs) = join sep (concat gs)"
proof (induction gs)
  case Nil
  then show ?case by simp
next
  case (Cons g gs)
  show ?case
  proof (cases gs)
    case Nil
    then show ?thesis by simp
  next
    case (Cons h hs)
    with Cons.prems have "concat gs \<noteq> []" by auto
    with Cons.prems Cons.IH Cons show ?thesis
      by (simp add: join_append del: concat.simps) (simp add: join_append)
  qed
qed


lemma groups_from_rec:
  "groups_from i m ws =
     (if m = 0 \<or> length ws \<le> i then [] else take m (drop i ws) # groups_from (i + m) m ws)"
  unfolding groups_from_def
  by (subst range_from.simps) (simp add: slice_def)

lemma concat_groups_from:
  "0 < m \<Longrightarrow> concat (groups_from i m ws) = drop i ws"
proof (induction i "length ws" m rule: range_from.induct)
  case (1 i step)
  show ?case
  proof (cases "length ws \<le> i")
    case True
    then show ?thesis by (subst groups_from_rec) simp
  next
    case False
    with 1 have "concat (groups_from (i + step) step ws) = drop (i + step) ws" by simp
    with False 1(2) show ?thesis
      by (subst groups_from_rec) (simp add: add.commute [of i step] flip: drop_drop)
  qed
qed

lemma groups_from_nonempty:
  "0 < m \<Longrightarrow> g \<in> set (groups_from i m ws) \<Longrightarrow> g \<noteq> [] \<and> length g \<le> m \<and> set g \<subseteq> set ws"
proof (induction i "length ws" m rule: range_from.induct)
  case (1 i step)
  show ?case
  proof (cases "length ws \<le> i")
    case True
    with 1(3) show ?thesis by (subst (asm) groups_from_rec) simp
  next
    case False
    from 1(3) False 1(2)
    consider "g = take step (drop i ws)" | "g \<in> set (groups_from (i + step) step ws)"
      by (subst (asm) groups_from_rec) auto
    then show ?thesis
    proof cases
      case 1
      with False \<open>0 < step\<close> show ?thesis
        by (auto dest!: in_set_takeD in_set_dropD)
    next
      case 2
      with 1 False show ?thesis by simp
    qed
  qed
qed

lemma length_groups_from:
  "0 < m \<Longrightarrow> length (groups_from i m ws) = (length ws - i + m - 1) div m"
proof (induction i "length ws" m rule: range_from.induct)
  case (1 i step)
  show ?case
  proof (cases "length ws \<le> i")
    case True
    with 1(2) show ?thesis by (subst groups_from_rec) simp
  next
    case False
    with 1 have IH: "length (groups_from (i + step) step ws) = (length ws - (i + step) + step - 1) div step"
      by simp
    have "(length ws - i + step - 1) div step = Suc ((length ws - (i + step) + step - 1) div step)"
    proof (cases "length ws - i \<le> step")
      case True
      with False \<open>0 < step\<close> have "(length ws - i + step - 1) div step = 1"
        by (intro div_nat_eqI) auto
      moreover from True \<open>0 < step\<close> have "(length ws - (i + step) + step - 1) div step = 0"
        by simp
      ultimately show ?thesis by simp
    next
      case False
      then have "length ws - i + step - 1 = (length ws - (i + step) + step - 1) + step"
        by simp
      then show ?thesis using \<open>0 < step\<close> by (simp only: div_add_self2)
    qed
    with IH False 1(2) show ?thesis
      by (subst groups_from_rec) simp
  qed
qed

lemma sizes_groups_from:
  "0 < m \<Longrightarrow> map length (groups_from i m ws) =
     replicate ((length ws - i) div m) m @
       (if (length ws - i) mod m = 0 then [] else [(length ws - i) mod m])"
proof (induction i "length ws" m rule: range_from.induct)
  case (1 i step)
  show ?case
  proof (cases "length ws \<le> i")
    case True
    with 1(2) show ?thesis by (subst groups_from_rec) simp
  next
    case False
    note notle = this
    with 1 have IH: "map length (groups_from (i + step) step ws) =
       replicate ((length ws - (i + step)) div step) step @
       (if (length ws - (i + step)) mod step = 0 then [] else [(length ws - (i + step)) mod step])"
      by simp
    show ?thesis
    proof (cases "length ws - i < step")
      case True
      with notle 1(2) IH show ?thesis
        by (subst groups_from_rec) (simp add: groups_from_rec [of "i + step"])
    next
      case False
      then have eq: "length ws - i = (length ws - (i + step)) + step" by simp
      have d: "(length ws - i) div step = Suc ((length ws - (i + step)) div step)"
        using \<open>0 < step\<close> by (subst eq) (simp only: div_add_self2)
      have m: "(length ws - i) mod step = (length ws - (i + step)) mod step"
        by (subst eq) simp
      from False notle 1(2) IH show ?thesis
        by (subst groups_from_rec) (simp add: d m min_def)
    qed
  qed
qed

lemma chunk_words_groups:
  "0 < m \<Longrightarrow> chunk_words m ws = Inr (map (join [32]) (groups_from 0 m ws))"
  by (simp add: chunk_words_def py_range_def groups_from_def str_space)

lemma split_chunks_groups:
  assumes "0 < m" and "\<forall>w\<in>set ws. word_ok w"
  shows "map split (map (join [32]) (groups_from i m ws)) = groups_from i m ws"
proof -
  have "split (join [32] g) = g" if "g \<in> set (groups_from i m ws)" for g
  proof -
    from groups_from_nonempty [OF assms(1) that] have "set g \<subseteq> set ws" by simp
    with assms(2) have "\<forall>w\<in>set g. word_ok w" by blast
    then show ?thesis by (rule split_join)
  qed
  then show ?thesis by (simp add: map_idI)
qed

lemma ceiling_div_nat:
  assumes "0 < (m::nat)"
  shows "\<lceil>real n / real m\<rceil> = int ((n + m - 1) div m)"
proof -
  define k where "k = (n + m - 1) div m"
  have lo: "k * m \<le> n + m - 1"
    unfolding k_def by simp
  have hi: "n + m - 1 < k * m + m"
    unfolding k_def using assms dividend_less_div_times [of m "n + m - 1"] by simp
  from hi assms have "n \<le> k * m" by simp
  then have "real n \<le> real (k * m)" by (simp only: of_nat_le_iff)
  then have up: "real n / real m \<le> real k"
    using assms by (simp add: pos_divide_le_eq)
  from lo assms have "k * m < n + m" by simp
  then have "real (k * m) < real (n + m)" by (simp only: of_nat_less_iff)
  then have "real k * real m - real m < real n" by simp
  then have "(real k - 1) * real m < real n" by (simp add: algebra_simps)
  then have down: "real k - 1 < real n / real m"
    using assms by (simp add: pos_less_divide_eq)
  have "\<lceil>real n / real m\<rceil> = int k"
    by (rule ceiling_unique) (use up down in simp_all)
  then show ?thesis by (simp add: k_def)
qed

lemma chunk_text_groups:
  "0 < m \<Longrightarrow> chunk_text m text = Inr (map (join [32]) (groups_from 0 m (split text)))"
  by (simp add: chunk_text_def chunk_words_groups)

lemma split_chunk_text:
  assumes "0 < m"
  shows "map split (map (join [32]) (groups_from 0 m (split text))) = groups_from 0 m (split text)"
  by (rule split_chunks_groups [OF assms]) (simp add: split_word_ok)

lemma split_replicate_words:
  "word_ok w \<Longrightarrow> split_from [] (concat (replicate n (w @ [32]))) = replicate n w"
  by (induction n) (simp_all add: split_from_word_then_space)

section \<open>Chunking is lossless, bounded and minimal\<close>

text \<open>
  C1. For every text and every positive word limit the chunking step succeeds, and the
  words of the chunks, taken in chunk order, are exactly the words of the text: joined by
  single spaces they give the whitespace-normalised text, which is also what the chunks
  themselves give when joined by single spaces.
\<close>

theorem chunking_lossless:
  assumes "0 < m"
  shows "\<exists>chunks. chunk_text m text = Inr chunks
           \<and> concat (map split chunks) = split text
           \<and> join (str '' '') (concat (map split chunks)) = join (str '' '') (split text)
           \<and> join (str '' '') chunks = join (str '' '') (split text)"
proof -
  let ?gs = "groups_from 0 m (split text)"
  let ?chunks = "map (join [32]) ?gs"
  have a: "chunk_text m text = Inr ?chunks"
    by (rule chunk_text_groups [OF assms])
  have b: "concat (map split ?chunks) = split text"
    by (simp only: split_chunk_text [OF assms] concat_groups_from [OF assms] drop_0)
  have "\<forall>g\<in>set ?gs. g \<noteq> []"
    using groups_from_nonempty [OF assms] by blast
  then have "join [32] ?chunks = join [32] (concat ?gs)"
    by (rule join_concat)
  then have c: "join [32] ?chunks = join [32] (split text)"
    by (simp only: concat_groups_from [OF assms] drop_0)
  show ?thesis
    unfolding str_space
    by (rule exI [where x = ?chunks]) (simp only: a b c simp_thms)
qed

theorem chunking_lossless_witness:
  "(0::nat) < 2 \<and>
   (\<exists>chunks. chunk_text 2 (str '' a  b c '') = Inr chunks
      \<and> concat (map split chunks) = split (str '' a  b c '')
      \<and> join (str '' '') (concat (map split chunks)) = join (str '' '') (split (str '' a  b c ''))
      \<and> join (str '' '') chunks = join (str '' '') (split (str '' a  b c '')))"
proof
  show "(0::nat) < 2" by simp
  then show "\<exists>chunks. chunk_text 2 (str '' a  b c '') = Inr chunks
      \<and> concat (map split chunks) = split (str '' a  b c '')
      \<and> join (str '' '') (concat (map split chunks)) = join (str '' '') (split (str '' a  b c ''))
      \<and> join (str '' '') chunks = join (str '' '') (split (str '' a  b c ''))"
    by (rule chunking_lossless)
qed

end
